theory Spec2Isabelle
  imports Complex_Main "HOL-Library.Word"
begin

section \<open>JavaScript values used by the admin console\<close>

text \<open>
  A JavaScript \<open>number\<close> is modelled as a real: the code only passes numbers on and
  tests them for truthiness (a number is falsy exactly when it is zero; JSON carries no NaN).
  A value that may be \<open>undefined\<close> or \<open>null\<close> is an \<open>option\<close>. A thrown
  exception is a value \<open>JsError name message\<close>.
\<close>

type_synonym number = real

datatype js_error = JsError string string

fun err_name :: "js_error \<Rightarrow> string" where
  "err_name (JsError n m) = n"

fun err_message :: "js_error \<Rightarrow> string" where
  "err_message (JsError n m) = m"

definition truthy_str :: "string option \<Rightarrow> bool" where
  "truthy_str v = (case v of None \<Rightarrow> False | Some s \<Rightarrow> s \<noteq> [])"

definition truthy_num :: "number option \<Rightarrow> bool" where
  "truthy_num v = (case v of None \<Rightarrow> False | Some n \<Rightarrow> n \<noteq> 0)"

text \<open>\<open>a || b\<close>: the left operand when it is truthy, the right operand otherwise.\<close>

definition or_str :: "string option \<Rightarrow> string option \<Rightarrow> string option" where
  "or_str a b = (if truthy_str a then a else b)"

definition or_num :: "number option \<Rightarrow> number option \<Rightarrow> number option" where
  "or_num a b = (if truthy_num a then a else b)"

section \<open>Session store (src/lib/api.ts, getToken and setToken)\<close>

text \<open>
  \<open>localStorage\<close> is a map from keys to strings; \<open>getItem\<close> of a missing key is
  \<open>null\<close>. The token lives under the key \<open>adminToken\<close>.
\<close>

type_synonym storage = "string \<rightharpoonup> string"

definition getToken :: "storage \<Rightarrow> string option" where
  "getToken ls = ls ''adminToken''"

definition setToken :: "string option \<Rightarrow> storage \<Rightarrow> storage" where
  "setToken tok ls =
     (if \<not> truthy_str tok then ls(''adminToken'' := None)
      else ls(''adminToken'' := tok))"


section \<open>Strings and numbers to text\<close>

text \<open>\<open>Array.prototype.join\<close> on an array of strings.\<close>

fun join :: "string \<Rightarrow> string list \<Rightarrow> string" where
  "join sep [] = []"
| "join sep [x] = x"
| "join sep (x # y # r) = x @ sep @ join sep (y # r)"

text \<open>
  \<open>n.toString(r)\<close> for a non-negative integer \<open>n\<close> and a radix \<open>r\<close> between 2 and 36,
  and \<open>s.padStart(k, c)\<close> for a one-character pad.
\<close>

definition digit_char :: "nat \<Rightarrow> char" where
  "digit_char d = ''0123456789abcdefghijklmnopqrstuvwxyz'' ! d"

function toString_radix :: "nat \<Rightarrow> nat \<Rightarrow> string" where
  "toString_radix r n =
     (if n < r \<or> r < 2 then [digit_char n]
      else toString_radix r (n div r) @ [digit_char (n mod r)])"
  by pat_completeness auto
termination
  by (relation "measure (\<lambda>(r, n). n)") auto

declare toString_radix.simps [simp del]

definition padStart :: "nat \<Rightarrow> char \<Rightarrow> string \<Rightarrow> string" where
  "padStart k c s = replicate (k - length s) c @ s"

text \<open>
  The conversion of a number to a string (\<open>String(x)\<close>, a template literal) is the
  platform's; the functions below take it as the parameter \<open>str\<close>. \<open>int_str\<close> is the
  instance used in the examples: it agrees with the platform on the non-negative integers
  below \<open>10^21\<close>, which print as their decimal digits.
\<close>

definition int_str :: "number \<Rightarrow> string" where
  "int_str x = toString_radix 10 (nat \<lfloor>x\<rfloor>)"

section \<open>The request layer (src/lib/api.ts, request)\<close>








section \<open>The fingerprint (getDeviceFingerprint and sha256Hex)\<close>

text \<open>
  The ambient signals the function reads. A record of this type may have more fields
  (the rest of \<open>navigator\<close> and \<open>screen\<close>); the function reads these seven.
\<close>

record ambient =
  userAgent :: "string option"
  language :: "string option"
  hardwareConcurrency :: "number option"
  deviceMemory :: "number option"
  width :: number
  height :: number
  timeZone :: "string option"

text \<open>\<open>v || ""\<close> for a string, and \<open>String(v || "")\<close> for a number and for a string.\<close>

definition str_or_empty :: "string option \<Rightarrow> string" where
  "str_or_empty v = (case v of None \<Rightarrow> [] | Some s \<Rightarrow> if s \<noteq> [] then s else [])"

definition num_or_empty :: "(number \<Rightarrow> string) \<Rightarrow> number option \<Rightarrow> string" where
  "num_or_empty str v = (case v of None \<Rightarrow> [] | Some n \<Rightarrow> if n \<noteq> 0 then str n else [])"

text \<open>
  The 32 bytes of a 256-bit digest, first byte first (\<open>new Uint8Array(buf)\<close>).
\<close>

definition digest_bytes :: "256 word \<Rightarrow> 8 word list" where
  "digest_bytes w = map (\<lambda>i. ucast (drop_bit (8 * (31 - i)) w)) [0..<32]"

text \<open>
  \<open>digest\<close> is the platform's SHA-256 of the UTF-8 encoding of the input
  (\<open>TextEncoder\<close>, \<open>crypto.subtle.digest\<close>).
\<close>

definition sha256Hex :: "(string \<Rightarrow> 256 word) \<Rightarrow> string \<Rightarrow> string" where
  "sha256Hex digest input =
     concat (map (\<lambda>b. padStart 2 CHR ''0'' (toString_radix 16 (unat b)))
       (digest_bytes (digest input)))"

definition fingerprint_parts :: "(number \<Rightarrow> string) \<Rightarrow> 'a ambient_scheme \<Rightarrow> string list" where
  "fingerprint_parts str env =
     [str_or_empty (userAgent env),
      str_or_empty (language env),
      num_or_empty str (hardwareConcurrency env),
      num_or_empty str (deviceMemory env),
      str (width env) @ ''x'' @ str (height env),
      str_or_empty (timeZone env)]"

definition getDeviceFingerprint ::
  "(number \<Rightarrow> string) \<Rightarrow> (string \<Rightarrow> 256 word) \<Rightarrow> 'a ambient_scheme \<Rightarrow> string" where
  "getDeviceFingerprint str digest env = sha256Hex digest (join ''|'' (fingerprint_parts str env))"

section \<open>The data of the console (src/ui/App.tsx)\<close>

datatype status = ACTIVE | OFFLINE | REINSTALLED

record last_location =
  ll_lat :: number
  ll_lng :: number
  ll_address :: "string option"
  ll_timestamp :: "string option"

record device =
  deviceId :: string
  deviceName :: string
  model :: string
  osVersion :: string
  installDate :: string
  lastSeen :: "string option"
  status :: status
  lastLocation :: "last_location option"

record location_log =
  log_id :: string
  log_deviceId :: string
  lat :: number
  lng :: number
  address :: "string option"
  timestamp :: string
  createdAt :: string

record summary =
  total :: number
  online :: number
  offline :: number

section \<open>The map (src/ui/MapPreview.tsx)\<close>

record map_props =
  p_lat :: "number option"
  p_lng :: "number option"
  p_timestamp :: "string option"
  p_address :: "string option"

text \<open>
  What the second effect of \<open>MapPreview\<close> leaves on the map, once the map exists: the
  centre and zoom of the view, the position of the marker, and the popup bound to the
  marker (the coordinates it prints, and the timestamp and address lines it has).
\<close>

record popup =
  popup_at :: "number \<times> number"
  popup_time :: "string option"
  popup_address :: "string option"

record map_view =
  centre :: "number \<times> number"
  zoom :: nat
  marker :: "number \<times> number"
  bound_popup :: "popup option"

definition MapPreview :: "map_props \<Rightarrow> map_view" where
  "MapPreview props =
     (case (p_lat props, p_lng props) of
        (Some la, Some lo) \<Rightarrow>
          \<lparr>centre = (la, lo), zoom = 15, marker = (la, lo),
           bound_popup = Some \<lparr>popup_at = (la, lo),
             popup_time = (if truthy_str (p_timestamp props) then p_timestamp props else None),
             popup_address = (if truthy_str (p_address props) then p_address props else None)\<rparr>\<rparr>
      | _ \<Rightarrow> \<lparr>centre = (0, 0), zoom = 2, marker = (0, 0), bound_popup = None\<rparr>)"

section \<open>The calls of the API client (src/lib/api.ts, api)\<close>

text \<open>
  A call is kept as what the client hands to \<open>request\<close>, before URL encoding: the
  members of its \<open>URLSearchParams\<close>, and for the location logs the device id of the path.
\<close>

datatype api_call =
    Summary
  | ListDevices "(string \<times> string) list"
  | GetLocationLogs string "(string \<times> string) list"

text \<open>\<open>if (v) sp.set(k, v)\<close>, for a key the parameters do not have yet.\<close>

definition sp_set_if :: "string \<Rightarrow> string option \<Rightarrow> (string \<times> string) list \<Rightarrow> (string \<times> string) list" where
  "sp_set_if k v sp = (case v of None \<Rightarrow> sp | Some x \<Rightarrow> if x \<noteq> [] then sp @ [(k, x)] else sp)"

definition api_listDevices :: "string \<Rightarrow> string option \<Rightarrow> string option \<Rightarrow> api_call" where
  "api_listDevices qv sinceIso untilIso =
     ListDevices (sp_set_if ''until'' untilIso (sp_set_if ''since'' sinceIso [(''q'', qv)]))"

definition api_getLocationLogs :: "string \<Rightarrow> string option \<Rightarrow> string option \<Rightarrow> api_call" where
  "api_getLocationLogs dev sinceIso untilIso =
     GetLocationLogs dev (sp_set_if ''until'' untilIso (sp_set_if ''since'' sinceIso []))"

text \<open>The \<open>authorization\<close> header of \<open>request\<close>: the stored token when it is truthy.\<close>

definition bearer :: "storage \<Rightarrow> string option" where
  "bearer ls = (if truthy_str (getToken ls) then getToken ls else None)"

section \<open>The state of the App component\<close>

text \<open>
  An asynchronous function suspended at an \<open>await\<close> is a pending entry: which function
  waits, and what its closure holds. \<open>load\<close> is called from the effect on \<open>authed\<close>
  (a rejection is shown as the error) and from the debounce timer (a rejection is dropped);
  it waits first for the summary and then for the device list, and its closure holds the
  \<open>q\<close>, \<open>since\<close> and \<open>until\<close> of the render that created it.
\<close>

type_synonym inputs = "string \<times> string \<times> string"

datatype load_caller = AuthEffect | DebounceTimer

datatype pending =
    AwaitSummary load_caller inputs
  | AwaitDevices load_caller
  | AwaitLogs

text \<open>
  The state: \<open>localStorage\<close>, the \<open>useState\<close> cells of \<open>App\<close> that the modelled
  handlers read or write (the login and password forms are left out), and the environment:
  a clock in milliseconds, the one timer of the debounce effect (its deadline and the inputs
  its callback closes over), the requests in flight (each under the number it was issued
  with), and the log of the calls issued, each with the bearer token it carried.
\<close>

record app =
  localStorage :: storage
  token :: "string option"
  error :: "string option"
  summary :: "summary option"
  q :: string
  since :: string
  until :: string
  devices :: "device list"
  selected :: "device option"
  locationLogs :: "location_log list"
  selectedLocation :: "location_log option"
  loadingLogs :: bool
  clock :: nat
  timer :: "(nat \<times> inputs) option"
  inflight :: "(nat \<times> pending) list"
  next_id :: nat
  issued :: "(api_call \<times> string option) list"

definition authed :: "app \<Rightarrow> bool" where
  "authed s = truthy_str (token s)"

definition inputs_of :: "app \<Rightarrow> inputs" where
  "inputs_of s = (q s, since s, until s)"

text \<open>\<open>selected?.deviceId\<close>, the dependency of the selection effect.\<close>

definition dep_deviceId :: "app \<Rightarrow> string option" where
  "dep_deviceId s = map_option deviceId (selected s)"

definition issue :: "api_call \<Rightarrow> pending \<Rightarrow> app \<Rightarrow> app" where
  "issue c k s =
     s\<lparr>issued := issued s @ [(c, bearer (localStorage s))],
       inflight := inflight s @ [(next_id s, k)],
       next_id := Suc (next_id s)\<rparr>"

definition settle :: "nat \<Rightarrow> app \<Rightarrow> app" where
  "settle i s = s\<lparr>inflight := filter (\<lambda>p. fst p \<noteq> i) (inflight s)\<rparr>"

section \<open>load\<close>

text \<open>\<open>load\<close> up to its first \<open>await\<close>: the summary call is issued.\<close>

definition load :: "load_caller \<Rightarrow> inputs \<Rightarrow> app \<Rightarrow> app" where
  "load who cap s = issue Summary (AwaitSummary who cap) s"

text \<open>
  A rejection of \<open>load\<close>: \<open>setError(String(e.message || e))\<close> in the effect on
  \<open>authed\<close>, nothing in the debounce timer. \<open>String(e)\<close> of an error with an empty
  message is its name.
\<close>

definition load_rejected :: "load_caller \<Rightarrow> js_error \<Rightarrow> app \<Rightarrow> app" where
  "load_rejected who e s =
     (case who of
        AuthEffect \<Rightarrow> s\<lparr>error := Some (if err_message e \<noteq> [] then err_message e else err_name e)\<rparr>
      | DebounceTimer \<Rightarrow> s)"

text \<open>
  \<open>v ? new Date(v).toISOString() : undefined\<close>. The conversion \<open>toISO\<close> is the
  platform's; \<open>Inl\<close> is the \<open>RangeError\<close> it throws for an invalid date.
\<close>

definition iso_opt :: "(string \<Rightarrow> js_error + string) \<Rightarrow> string \<Rightarrow> js_error + string option" where
  "iso_opt toISO v =
     (if v \<noteq> [] then (case toISO v of Inl e \<Rightarrow> Inl e | Inr x \<Rightarrow> Inr (Some x)) else Inr None)"

text \<open>\<open>load\<close> resumed with the outcome of the summary call.\<close>

definition load_after_summary ::
  "(string \<Rightarrow> js_error + string) \<Rightarrow> load_caller \<Rightarrow> inputs \<Rightarrow> js_error + summary \<Rightarrow> app \<Rightarrow> app" where
  "load_after_summary toISO who cap r s =
     (case r of
        Inl e \<Rightarrow> load_rejected who e s
      | Inr sm \<Rightarrow>
          (let s1 = s\<lparr>summary := Some sm\<rparr> in
           case cap of (qv, sv, uv) \<Rightarrow>
             (case iso_opt toISO sv of
                Inl e \<Rightarrow> load_rejected who e s1
              | Inr sinceIso \<Rightarrow>
                  (case iso_opt toISO uv of
                     Inl e \<Rightarrow> load_rejected who e s1
                   | Inr untilIso \<Rightarrow>
                       issue (api_listDevices qv sinceIso untilIso) (AwaitDevices who) s1))))"

text \<open>\<open>load\<close> resumed with the outcome of the device-list call.\<close>

definition load_after_devices :: "load_caller \<Rightarrow> js_error + device list \<Rightarrow> app \<Rightarrow> app" where
  "load_after_devices who r s =
     (case r of Inl e \<Rightarrow> load_rejected who e s | Inr ds \<Rightarrow> s\<lparr>devices := ds\<rparr>)"

section \<open>logout and loadLocationLogs\<close>

definition logout :: "app \<Rightarrow> app" where
  "logout s =
     s\<lparr>localStorage := setToken None (localStorage s),
       token := None,
       devices := [],
       selected := None,
       locationLogs := [],
       selectedLocation := None\<rparr>"

text \<open>\<open>loadLocationLogs\<close> up to its \<open>await\<close>.\<close>

definition loadLocationLogs :: "string \<Rightarrow> app \<Rightarrow> app" where
  "loadLocationLogs dev s =
     issue (api_getLocationLogs dev None None) AwaitLogs
       (s\<lparr>loadingLogs := True, selectedLocation := None\<rparr>)"

text \<open>\<open>loadLocationLogs\<close> resumed: the \<open>try\<close> body, the \<open>catch\<close>, then the \<open>finally\<close>.\<close>

definition loadLocationLogs_resumed :: "js_error + location_log list \<Rightarrow> app \<Rightarrow> app" where
  "loadLocationLogs_resumed r s =
     (case r of
        Inr logs \<Rightarrow>
          (s\<lparr>locationLogs := logs,
             selectedLocation := (case logs of [] \<Rightarrow> selectedLocation s | l # rest \<Rightarrow> Some l)\<rparr>)
           \<lparr>loadingLogs := False\<rparr>
      | Inl e \<Rightarrow>
          (s\<lparr>error := Some (if err_message e \<noteq> [] then err_message e
                              else ''Failed to load location logs''),
             locationLogs := []\<rparr>)
           \<lparr>loadingLogs := False\<rparr>)"

section \<open>The effects\<close>

text \<open>The effect on \<open>[authed]\<close>.\<close>

definition auth_effect :: "app \<Rightarrow> app" where
  "auth_effect s = (if \<not> authed s then s else load AuthEffect (inputs_of s) s)"

text \<open>
  The effect on \<open>[q, since, until]\<close>: the cleanup of its last run clears that run's
  timer, then the new run sets a timer 350 ms ahead unless the user is not logged in.
\<close>

definition debounce_effect :: "app \<Rightarrow> app" where
  "debounce_effect s =
     (let s1 = s\<lparr>timer := None\<rparr>
      in if \<not> authed s1 then s1 else s1\<lparr>timer := Some (clock s1 + 350, inputs_of s1)\<rparr>)"

text \<open>The effect on \<open>[selected?.deviceId]\<close>.\<close>

definition selection_effect :: "app \<Rightarrow> app" where
  "selection_effect s =
     (if truthy_str (dep_deviceId s)
      then (case selected s of Some d \<Rightarrow> loadLocationLogs (deviceId d) s | None \<Rightarrow> s)
      else s\<lparr>locationLogs := [], selectedLocation := None\<rparr>)"

text \<open>
  After a render, the effects whose dependencies differ from the last render's run, in
  the order of the source. No effect writes a dependency, so one pass is all.
\<close>

definition effects :: "app \<Rightarrow> app \<Rightarrow> app" where
  "effects old s =
     (let s1 = (if authed s \<noteq> authed old then auth_effect s else s);
          s2 = (if inputs_of s \<noteq> inputs_of old then debounce_effect s1 else s1)
      in if dep_deviceId s \<noteq> dep_deviceId old then selection_effect s2 else s2)"

text \<open>The first render: the initial state, then every effect once.\<close>

definition init :: "storage \<Rightarrow> nat \<Rightarrow> app" where
  "init ls t0 =
     \<lparr>localStorage = ls, token = getToken ls, error = None, summary = None,
      q = [], since = [], until = [], devices = [], selected = None,
      locationLogs = [], selectedLocation = None, loadingLogs = False,
      clock = t0, timer = None, inflight = [], next_id = 0, issued = []\<rparr>"

definition mount :: "storage \<Rightarrow> nat \<Rightarrow> app" where
  "mount ls t0 = selection_effect (debounce_effect (auth_effect (init ls t0)))"

section \<open>Events\<close>

text \<open>
  What can happen to the mounted component: an edit of one search input, the passing of
  time (a due timer fires and calls its \<open>load\<close>), a click on a device or on a log entry,
  a click on Logout, and the arrival of the outcome of a request in flight (\<open>Inl\<close> when
  \<open>request\<close> throws). An outcome for a request that is not in flight, or of another
  kind, does nothing. An event is the handler together with the effects that follow it; the
  render between the two is not a state of its own.
\<close>

datatype event =
    SetQ string
  | SetSince string
  | SetUntil string
  | Advance nat
  | ClickDevice device
  | ClickLog location_log
  | Logout
  | SummaryResponse nat "js_error + summary"
  | DevicesResponse nat "js_error + device list"
  | LogsResponse nat "js_error + location_log list"

definition fire_timer :: "app \<Rightarrow> app" where
  "fire_timer s =
     (case timer s of
        None \<Rightarrow> s
      | Some (deadline, cap) \<Rightarrow>
          if deadline \<le> clock s then load DebounceTimer cap (s\<lparr>timer := None\<rparr>) else s)"

fun step :: "(string \<Rightarrow> js_error + string) \<Rightarrow> event \<Rightarrow> app \<Rightarrow> app" where
  "step toISO (SetQ v) s = effects s (s\<lparr>q := v\<rparr>)"
| "step toISO (SetSince v) s = effects s (s\<lparr>since := v\<rparr>)"
| "step toISO (SetUntil v) s = effects s (s\<lparr>until := v\<rparr>)"
| "step toISO (Advance t) s = fire_timer (s\<lparr>clock := max (clock s) t\<rparr>)"
| "step toISO (ClickDevice d) s = effects s (s\<lparr>selected := Some d\<rparr>)"
| "step toISO (ClickLog l) s = effects s (s\<lparr>selectedLocation := Some l\<rparr>)"
| "step toISO Logout s = effects s (logout s)"
| "step toISO (SummaryResponse i r) s =
     (case map_of (inflight s) i of
        Some (AwaitSummary who cap) \<Rightarrow> load_after_summary toISO who cap r (settle i s)
      | _ \<Rightarrow> s)"
| "step toISO (DevicesResponse i r) s =
     (case map_of (inflight s) i of
        Some (AwaitDevices who) \<Rightarrow> load_after_devices who r (settle i s)
      | _ \<Rightarrow> s)"
| "step toISO (LogsResponse i r) s =
     (case map_of (inflight s) i of
        Some AwaitLogs \<Rightarrow> loadLocationLogs_resumed r (settle i s)
      | _ \<Rightarrow> s)"

fun run :: "(string \<Rightarrow> js_error + string) \<Rightarrow> event list \<Rightarrow> app \<Rightarrow> app" where
  "run toISO [] s = s"
| "run toISO (ev # evs) s = run toISO evs (step toISO ev s)"

section \<open>What App renders\<close>

text \<open>
  The props of \<open>MapPreview\<close>, when the user is logged in and a device is selected
  (otherwise the map is not rendered): each is
  \<open>selectedLocation?.f || selected.lastLocation?.f\<close>.
\<close>

definition map_props_of :: "app \<Rightarrow> map_props option" where
  "map_props_of s =
     (case (if authed s then selected s else None) of
        None \<Rightarrow> None
      | Some d \<Rightarrow>
          Some \<lparr>p_lat = or_num (map_option lat (selectedLocation s)) (map_option ll_lat (lastLocation d)),
                p_lng = or_num (map_option lng (selectedLocation s)) (map_option ll_lng (lastLocation d)),
                p_timestamp = or_str (map_option timestamp (selectedLocation s))
                                (Option.bind (lastLocation d) ll_timestamp),
                p_address = or_str (Option.bind (selectedLocation s) address)
                              (Option.bind (lastLocation d) ll_address)\<rparr>)"

text \<open>
  The location-history panel, when the user is logged in and a device is selected: the
  count in its heading, and below it the loading line, the no-logs line, or the entries.
\<close>

datatype panel_body = LoadingLine | NoLogsLine | Entries "location_log list"

definition log_panel :: "app \<Rightarrow> (nat \<times> panel_body) option" where
  "log_panel s =
     (case (if authed s then selected s else None) of
        None \<Rightarrow> None
      | Some d \<Rightarrow>
          Some (length (locationLogs s),
                if loadingLogs s then LoadingLine
                else if length (locationLogs s) = 0 then NoLogsLine
                else Entries (locationLogs s)))"

section \<open>Traces\<close>

text \<open>
  Request numbers are handed out in order, so every request in flight has a number below
  the next one. The property holds at the first render and every event keeps it.
\<close>

definition ids_fresh :: "app \<Rightarrow> bool" where
  "ids_fresh s = list_all (\<lambda>p. fst p < next_id s) (inflight s)"

text \<open>
  A burst of edits of the search inputs. \<open>edit\<close> is what an edit does to the three
  inputs; \<open>timed\<close> turns a list of edits, each with the time it happens at, into events;
  \<open>burst t0 i es\<close> says that, starting from the inputs \<open>i\<close> last edited at time
  \<open>t0\<close>, each edit of \<open>es\<close> changes an input and comes less than 350 ms after the one
  before it.
\<close>

fun edit :: "event \<Rightarrow> inputs \<Rightarrow> inputs" where
  "edit (SetQ v) (a, b, c) = (v, b, c)"
| "edit (SetSince v) (a, b, c) = (a, v, c)"
| "edit (SetUntil v) (a, b, c) = (a, b, v)"
| "edit ev i = i"

fun timed :: "(nat \<times> event) list \<Rightarrow> event list" where
  "timed [] = []"
| "timed ((t, ev) # es) = Advance t # ev # timed es"

fun burst :: "nat \<Rightarrow> inputs \<Rightarrow> (nat \<times> event) list \<Rightarrow> bool" where
  "burst t0 i [] = True"
| "burst t0 i ((t, ev) # es) =
     (t0 \<le> t \<and> t < t0 + 350 \<and> edit ev i \<noteq> i \<and> burst t (edit ev i) es)"

fun last_time :: "nat \<Rightarrow> (nat \<times> event) list \<Rightarrow> nat" where
  "last_time t0 [] = t0"
| "last_time t0 ((t, ev) # es) = last_time t es"

fun final_inputs :: "inputs \<Rightarrow> (nat \<times> event) list \<Rightarrow> inputs" where
  "final_inputs i [] = i"
| "final_inputs i ((t, ev) # es) = final_inputs (edit ev i) es"

text \<open>No timer is due at or before time \<open>t\<close>.\<close>

definition timer_after :: "nat \<Rightarrow> app \<Rightarrow> bool" where
  "timer_after t s = (case timer s of None \<Rightarrow> True | Some (deadline, cap) \<Rightarrow> t < deadline)"

text \<open>
  The calls a resumed \<open>load\<close> issues once its summary call has the outcome \<open>r\<close>: the
  device-list call, when the summary succeeded and no date conversion threw.
\<close>

definition calls_after_summary ::
  "(string \<Rightarrow> js_error + string) \<Rightarrow> inputs \<Rightarrow> js_error + summary \<Rightarrow> api_call list" where
  "calls_after_summary toISO cap r =
     (case r of
        Inl e \<Rightarrow> []
      | Inr sm \<Rightarrow>
          (case cap of (qv, sv, uv) \<Rightarrow>
             (case iso_opt toISO sv of
                Inl e \<Rightarrow> []
              | Inr sinceIso \<Rightarrow>
                  (case iso_opt toISO uv of
                     Inl e \<Rightarrow> []
                   | Inr untilIso \<Rightarrow> [api_listDevices qv sinceIso untilIso]))))"

section \<open>Data of the examples\<close>

text \<open>
  \<open>iso_utc\<close> stands for the platform's date conversion in the examples: a date-only
  string is read as midnight UTC.
\<close>

definition iso_utc :: "string \<Rightarrow> js_error + string" where
  "iso_utc v = Inr (v @ ''T00:00:00.000Z'')"

definition a_device :: "string \<Rightarrow> last_location option \<Rightarrow> device" where
  "a_device i ll =
     \<lparr>deviceId = i, deviceName = ''Phone '' @ i, model = ''Pixel'', osVersion = ''14'',
      installDate = ''2024-01-01T00:00:00Z'', lastSeen = None, status = ACTIVE,
      lastLocation = ll\<rparr>"

definition a_log :: "string \<Rightarrow> string \<Rightarrow> number \<Rightarrow> number \<Rightarrow> string \<Rightarrow> location_log" where
  "a_log i dev la lo ts =
     \<lparr>log_id = i, log_deviceId = dev, lat = la, lng = lo, address = None,
      timestamp = ts, createdAt = ts\<rparr>"

definition a_summary :: summary where
  "a_summary = \<lparr>total = 2, online = 1, offline = 1\<rparr>"

definition a_store :: storage where
  "a_store = Map.empty(''adminToken'' \<mapsto> ''tok'')"

section \<open>Session store: read after write\<close>

text \<open>
  C7, as stated, fails for the empty token: \<open>setToken("")\<close> takes the \<open>!token\<close> branch
  and removes the slot, so the next read is \<open>null\<close> and not the empty string.
\<close>

theorem C7_empty_token_counterexample:
  "getToken (setToken (Some '''') (Map.empty(''adminToken'' \<mapsto> ''old''))) \<noteq> Some ''''"
  by (simp add: getToken_def setToken_def truthy_str_def)

text \<open>
  C7 (amended): for every non-empty token \<open>t\<close>, a read after \<open>setToken(t)\<close> returns
  \<open>t\<close>; a read after \<open>setToken(null)\<close> or \<open>setToken("")\<close> returns \<open>null\<close>; the value
  is held in the single slot \<open>adminToken\<close> and no other slot is touched; and a component
  mounted on the storage afterwards (a reload) starts with the token that was written.
\<close>

theorem C7_read_after_write:
  "(t \<noteq> [] \<longrightarrow> getToken (setToken (Some t) ls) = Some t)
   \<and> getToken (setToken None ls) = None
   \<and> getToken (setToken (Some []) ls) = None
   \<and> (k \<noteq> ''adminToken'' \<longrightarrow> setToken tok ls k = ls k)
   \<and> (t \<noteq> [] \<longrightarrow> token (init (setToken (Some t) ls) t0) = Some t)
   \<and> token (init (setToken None ls) t0) = None"
  by (simp add: getToken_def setToken_def truthy_str_def init_def)

theorem C7_read_after_write_witness:
  "getToken (setToken (Some ''tok1'') (Map.empty(''adminToken'' \<mapsto> ''old''))) = Some ''tok1''
   \<and> setToken (Some ''tok1'') (Map.empty(''other'' \<mapsto> ''x'')) ''other'' = Some ''x''
   \<and> token (init (setToken (Some ''tok1'') (Map.empty(''adminToken'' \<mapsto> ''old''))) 0) = Some ''tok1''"
  using C7_read_after_write [of "''tok1''" "Map.empty(''adminToken'' \<mapsto> ''old'')" "''other''" "Some ''tok1''" 0]
    C7_read_after_write [of "''tok1''" "Map.empty(''other'' \<mapsto> ''x'')" "''other''" "Some ''tok1''" 0]
  by (simp add: getToken_def setToken_def truthy_str_def)

section \<open>The request layer: the error of a non-success status\<close>




section \<open>Logout\<close>

text \<open>
  C9: \<open>logout\<close> is one synchronous handler, and after it the persisted token, the token
  state, the device list, the selection, the location-log list and the selected location
  are all empty, whatever they were; the same holds once the effects that follow the
  handler have run, and no map is rendered then.
\<close>

theorem C9_logout_clears:
  "getToken (localStorage (logout s)) = None
   \<and> token (logout s) = None
   \<and> devices (logout s) = []
   \<and> selected (logout s) = None
   \<and> locationLogs (logout s) = []
   \<and> selectedLocation (logout s) = None
   \<and> getToken (localStorage (step toISO Logout s)) = None
   \<and> token (step toISO Logout s) = None
   \<and> devices (step toISO Logout s) = []
   \<and> selected (step toISO Logout s) = None
   \<and> locationLogs (step toISO Logout s) = []
   \<and> selectedLocation (step toISO Logout s) = None
   \<and> map_props_of (step toISO Logout s) = None"
  by (simp add: logout_def getToken_def setToken_def truthy_str_def effects_def
      auth_effect_def authed_def debounce_effect_def selection_effect_def dep_deviceId_def
      inputs_of_def map_props_of_def Let_def)

section \<open>The fingerprint: a function of the signals, 64 hexadecimal digits\<close>

lemma digit_char_all: "list_all (\<lambda>d. digit_char d \<in> set ''0123456789abcdef'') [0..<16]"
  by code_simp

lemma digit_char_hex: "d < 16 \<Longrightarrow> digit_char d \<in> set ''0123456789abcdef''"
  using digit_char_all unfolding list_all_iff by simp

lemma byte_hex: "n < 256 \<Longrightarrow>
  padStart 2 CHR ''0'' (toString_radix 16 n) = [digit_char (n div 16), digit_char (n mod 16)]"
proof (cases "n < 16")
  case True
  then show ?thesis by (simp add: padStart_def digit_char_def toString_radix.simps [of 16 n])
next
  case False
  assume "n < 256"
  then have "n div 16 < 16" by simp
  with False show ?thesis
    by (simp add: padStart_def toString_radix.simps [of 16 n] toString_radix.simps [of 16 "n div 16"])
qed

lemma length_digest_bytes: "length (digest_bytes w) = 32"
  by (simp add: digest_bytes_def)

lemma length_concat_pairs:
  "(\<And>x. x \<in> set xs \<Longrightarrow> length (f x) = 2) \<Longrightarrow> length (concat (map f xs)) = 2 * length xs"
  by (induction xs) auto

lemma unat_byte: "unat (b :: 8 word) < 256"
  using unsigned_less [of b, where ?'a = nat] by simp

lemma length_sha256Hex: "length (sha256Hex digest input) = 64"
  unfolding sha256Hex_def
  by (subst length_concat_pairs) (simp_all add: byte_hex unat_byte length_digest_bytes)

lemma set_concat_map_subset:
  "(\<And>x. set (f x) \<subseteq> A) \<Longrightarrow> set (concat (map f xs)) \<subseteq> A"
  by (induction xs) auto

lemma set_sha256Hex: "set (sha256Hex digest input) \<subseteq> set ''0123456789abcdef''"
proof -
  have h: "set (padStart 2 CHR ''0'' (toString_radix 16 (unat b))) \<subseteq> set ''0123456789abcdef''"
    for b :: "8 word"
  proof -
    have n: "unat b < 256" by (rule unat_byte)
    then have "unat b div 16 < 16" "unat b mod 16 < 16" by simp_all
    then have hi: "digit_char (unat b div 16) \<in> set ''0123456789abcdef''"
      and lo: "digit_char (unat b mod 16) \<in> set ''0123456789abcdef''"
      by (simp_all only: digit_char_hex)
    show ?thesis
      unfolding byte_hex [OF n] using hi lo by (simp only: list.set insert_subset empty_subsetI simp_thms)
  qed
  show ?thesis unfolding sha256Hex_def by (rule set_concat_map_subset) (rule h)
qed


text \<open>
  C6: two environments that agree on the signals the function reads (user agent, language,
  logical CPU count, device memory, screen width and height, time zone), whatever else
  they hold, get the same fingerprint; the fingerprint is a string of 64 characters, each a
  lowercase hexadecimal digit; and it is the hex form of the digest of the six parts joined
  by \<open>|\<close>, a missing or falsy optional signal giving the empty part. This holds for any
  number printer \<open>str\<close> and any 256-bit digest function.
\<close>

theorem C6_fingerprint_deterministic:
  assumes "userAgent e1 = userAgent e2" and "language e1 = language e2"
    and "hardwareConcurrency e1 = hardwareConcurrency e2"
    and "deviceMemory e1 = deviceMemory e2"
    and "width e1 = width e2" and "height e1 = height e2"
    and "timeZone e1 = timeZone e2"
  shows "getDeviceFingerprint str digest e1 = getDeviceFingerprint str digest e2
    \<and> length (getDeviceFingerprint str digest e1) = 64
    \<and> set (getDeviceFingerprint str digest e1) \<subseteq> set ''0123456789abcdef''
    \<and> getDeviceFingerprint str digest e1 =
        sha256Hex digest
          (str_or_empty (userAgent e1) @ ''|'' @ str_or_empty (language e1) @ ''|''
           @ num_or_empty str (hardwareConcurrency e1) @ ''|''
           @ num_or_empty str (deviceMemory e1) @ ''|''
           @ str (width e1) @ ''x'' @ str (height e1) @ ''|''
           @ str_or_empty (timeZone e1))"
proof -
  have parts: "fingerprint_parts str e1 = fingerprint_parts str e2"
    using assms by (simp add: fingerprint_parts_def)
  have eq: "getDeviceFingerprint str digest e1 = getDeviceFingerprint str digest e2"
    by (simp only: getDeviceFingerprint_def parts)
  have len: "length (getDeviceFingerprint str digest e1) = 64"
    by (simp only: getDeviceFingerprint_def length_sha256Hex)
  have hex: "set (getDeviceFingerprint str digest e1) \<subseteq> set ''0123456789abcdef''"
    unfolding getDeviceFingerprint_def by (rule set_sha256Hex)
  have joined: "getDeviceFingerprint str digest e1 =
        sha256Hex digest
          (str_or_empty (userAgent e1) @ ''|'' @ str_or_empty (language e1) @ ''|''
           @ num_or_empty str (hardwareConcurrency e1) @ ''|''
           @ num_or_empty str (deviceMemory e1) @ ''|''
           @ str (width e1) @ ''x'' @ str (height e1) @ ''|''
           @ str_or_empty (timeZone e1))"
    by (simp add: getDeviceFingerprint_def fingerprint_parts_def)
  from eq len hex joined show ?thesis by (intro conjI)
qed

theorem C6_fingerprint_deterministic_witness:
  "getDeviceFingerprint int_str (\<lambda>x. of_nat (length x))
      \<lparr>userAgent = Some ''Mozilla/5.0'', language = Some ''en-US'', hardwareConcurrency = Some 8,
       deviceMemory = None, width = 1920, height = 1080, timeZone = Some ''UTC''\<rparr>
    = getDeviceFingerprint int_str (\<lambda>x. of_nat (length x))
      \<lparr>userAgent = Some ''Mozilla/5.0'', language = Some ''en-US'', hardwareConcurrency = Some 8,
       deviceMemory = None, width = 1920, height = 1080, timeZone = Some ''UTC'',
       \<dots> = ''more of navigator''\<rparr>
   \<and> length (getDeviceFingerprint int_str (\<lambda>x. of_nat (length x))
      \<lparr>userAgent = Some ''Mozilla/5.0'', language = Some ''en-US'', hardwareConcurrency = Some 8,
       deviceMemory = None, width = 1920, height = 1080, timeZone = Some ''UTC''\<rparr>) = 64
   \<and> join ''|'' (fingerprint_parts int_str
      \<lparr>userAgent = Some ''Mozilla/5.0'', language = Some ''en-US'', hardwareConcurrency = Some 8,
       deviceMemory = None, width = 1920, height = 1080, timeZone = Some ''UTC''\<rparr>)
     = ''Mozilla/5.0|en-US|8||1920x1080|UTC''"
proof -
  let ?e1 = "\<lparr>userAgent = Some ''Mozilla/5.0'', language = Some ''en-US'', hardwareConcurrency = Some 8,
       deviceMemory = None, width = 1920, height = 1080, timeZone = Some ''UTC''\<rparr>"
  let ?e2 = "\<lparr>userAgent = Some ''Mozilla/5.0'', language = Some ''en-US'', hardwareConcurrency = Some 8,
       deviceMemory = None, width = 1920, height = 1080, timeZone = Some ''UTC'',
       \<dots> = ''more of navigator''\<rparr>"
  have p: "userAgent ?e1 = userAgent ?e2" "language ?e1 = language ?e2"
    "hardwareConcurrency ?e1 = hardwareConcurrency ?e2" "deviceMemory ?e1 = deviceMemory ?e2"
    "width ?e1 = width ?e2" "height ?e1 = height ?e2" "timeZone ?e1 = timeZone ?e2"
    by simp_all
  note t = C6_fingerprint_deterministic [OF p, of int_str "\<lambda>x. of_nat (length x)"]
  from t have e: "getDeviceFingerprint int_str (\<lambda>x. of_nat (length x)) ?e1
      = getDeviceFingerprint int_str (\<lambda>x. of_nat (length x)) ?e2"
    by (rule conjunct1)
  from t have l: "length (getDeviceFingerprint int_str (\<lambda>x. of_nat (length x)) ?e1) = 64"
    by blast
  have j: "join ''|'' (fingerprint_parts int_str ?e1) = ''Mozilla/5.0|en-US|8||1920x1080|UTC''"
    by (simp add: fingerprint_parts_def str_or_empty_def num_or_empty_def int_str_def
        digit_char_def toString_radix.simps)
  from e l j show ?thesis by (intro conjI)
qed


section \<open>The props of the map\<close>

text \<open>
  C10: in the logged-in view, with a device and a log entry selected, each prop of the map is the entry's field
  when that field is truthy and the field of the device's \<open>lastLocation\<close> otherwise, each
  field on its own; so an entry with latitude 0 (or longitude 0) puts the marker at the
  \<open>lastLocation\<close>'s latitude (longitude) and the entry's other coordinate.
\<close>

theorem C10_active_location_fieldwise:
  assumes "authed s" and "selected s = Some d" and "selectedLocation s = Some l"
  shows "map_props_of s = Some
      \<lparr>p_lat = (if lat l \<noteq> 0 then Some (lat l) else map_option ll_lat (lastLocation d)),
       p_lng = (if lng l \<noteq> 0 then Some (lng l) else map_option ll_lng (lastLocation d)),
       p_timestamp = (if timestamp l \<noteq> [] then Some (timestamp l)
                      else Option.bind (lastLocation d) ll_timestamp),
       p_address = (if truthy_str (address l) then address l
                    else Option.bind (lastLocation d) ll_address)\<rparr>
    \<and> (lat l = 0 \<and> lng l \<noteq> 0 \<and> lastLocation d = Some ll \<longrightarrow>
          map_option (\<lambda>p. marker (MapPreview p)) (map_props_of s) = Some (ll_lat ll, lng l))
    \<and> (lat l \<noteq> 0 \<and> lng l = 0 \<and> lastLocation d = Some ll \<longrightarrow>
          map_option (\<lambda>p. marker (MapPreview p)) (map_props_of s) = Some (lat l, ll_lng ll))"
proof -
  have props: "map_props_of s = Some
      \<lparr>p_lat = (if lat l \<noteq> 0 then Some (lat l) else map_option ll_lat (lastLocation d)),
       p_lng = (if lng l \<noteq> 0 then Some (lng l) else map_option ll_lng (lastLocation d)),
       p_timestamp = (if timestamp l \<noteq> [] then Some (timestamp l)
                      else Option.bind (lastLocation d) ll_timestamp),
       p_address = (if truthy_str (address l) then address l
                    else Option.bind (lastLocation d) ll_address)\<rparr>"
    using assms by (simp add: map_props_of_def or_num_def or_str_def truthy_num_def truthy_str_def)
  have mix1: "lat l = 0 \<and> lng l \<noteq> 0 \<and> lastLocation d = Some ll \<longrightarrow>
          map_option (\<lambda>p. marker (MapPreview p)) (map_props_of s) = Some (ll_lat ll, lng l)"
    unfolding props by (simp add: MapPreview_def)
  have mix2: "lat l \<noteq> 0 \<and> lng l = 0 \<and> lastLocation d = Some ll \<longrightarrow>
          map_option (\<lambda>p. marker (MapPreview p)) (map_props_of s) = Some (lat l, ll_lng ll)"
    unfolding props by (simp add: MapPreview_def)
  from props mix1 mix2 show ?thesis by (intro conjI)
qed

theorem C10_active_location_fieldwise_witness:
  "map_option (\<lambda>p. marker (MapPreview p))
     (map_props_of ((init a_store 0)
        \<lparr>selected := Some (a_device ''A'' (Some \<lparr>ll_lat = 7, ll_lng = 8, ll_address = None, ll_timestamp = None\<rparr>)),
         selectedLocation := Some (a_log ''L1'' ''A'' 0 5 ''2024-01-02T00:00:00Z'')\<rparr>))
   = Some (7, 5)"
proof -
  let ?ll = "\<lparr>ll_lat = 7, ll_lng = 8, ll_address = None, ll_timestamp = None\<rparr>"
  let ?d = "a_device ''A'' (Some ?ll)"
  let ?l = "a_log ''L1'' ''A'' 0 5 ''2024-01-02T00:00:00Z''"
  let ?s = "(init a_store 0)\<lparr>selected := Some ?d, selectedLocation := Some ?l\<rparr>"
  have a: "selected ?s = Some ?d" and b: "selectedLocation ?s = Some ?l" by simp_all
  have au: "authed ?s"
    by (simp add: authed_def truthy_str_def init_def a_store_def getToken_def)
  have c: "lat ?l = 0 \<and> lng ?l \<noteq> 0 \<and> lastLocation ?d = Some ?ll"
    by (simp add: a_log_def a_device_def)
  from C10_active_location_fieldwise [OF au a b, of ?ll] c
  have "map_option (\<lambda>p. marker (MapPreview p)) (map_props_of ?s) = Some (ll_lat ?ll, lng ?l)"
    by blast
  then show ?thesis by (simp add: a_log_def)
qed

section \<open>Request numbers stay fresh\<close>

lemmas handler_defs = effects_def auth_effect_def debounce_effect_def selection_effect_def
  authed_def inputs_of_def dep_deviceId_def loadLocationLogs_def loadLocationLogs_resumed_def
  issue_def settle_def load_def load_rejected_def load_after_summary_def load_after_devices_def
  logout_def fire_timer_def api_getLocationLogs_def api_listDevices_def sp_set_if_def
  iso_opt_def truthy_str_def

lemma map_of_fresh:
  "list_all (\<lambda>p. fst p < n) xs \<Longrightarrow> map_of (xs @ [(n :: nat, k)]) n = Some k"
  by (induction xs) auto

lemma ids_fresh_issue: "ids_fresh s \<Longrightarrow> ids_fresh (issue c k s)"
  by (auto simp: ids_fresh_def issue_def list_all_iff)

lemma ids_fresh_settle: "ids_fresh s \<Longrightarrow> ids_fresh (settle i s)"
  by (auto simp: ids_fresh_def settle_def list_all_iff)

lemma ids_fresh_cong:
  "inflight s' = inflight s \<Longrightarrow> next_id s' = next_id s \<Longrightarrow> ids_fresh s' = ids_fresh s"
  by (simp add: ids_fresh_def)

lemma ids_fresh_load_rejected: "ids_fresh s \<Longrightarrow> ids_fresh (load_rejected who e s)"
  by (cases who) (simp_all add: load_rejected_def ids_fresh_def)

lemma ids_fresh_load_after_summary:
  "ids_fresh s \<Longrightarrow> ids_fresh (load_after_summary toISO who cap r s)"
proof -
  assume a: "ids_fresh s"
  have b: "ids_fresh (s\<lparr>summary := x\<rparr>)" for x using a by (simp add: ids_fresh_def)
  show ?thesis
    unfolding load_after_summary_def Let_def
    by (auto split: sum.splits prod.splits intro!: ids_fresh_load_rejected ids_fresh_issue a b)
qed

lemma ids_fresh_load_after_devices:
  "ids_fresh s \<Longrightarrow> ids_fresh (load_after_devices who r s)"
  by (cases r) (simp_all add: load_after_devices_def ids_fresh_load_rejected, simp add: ids_fresh_def)

lemma ids_fresh_resumed: "ids_fresh s \<Longrightarrow> ids_fresh (loadLocationLogs_resumed r s)"
  by (cases r) (simp_all add: loadLocationLogs_resumed_def ids_fresh_def)

lemma ids_fresh_auth_effect: "ids_fresh s \<Longrightarrow> ids_fresh (auth_effect s)"
  by (simp add: auth_effect_def load_def ids_fresh_issue)

lemma ids_fresh_debounce_effect: "ids_fresh s \<Longrightarrow> ids_fresh (debounce_effect s)"
  by (simp add: debounce_effect_def Let_def ids_fresh_def)

lemma ids_fresh_selection_effect: "ids_fresh s \<Longrightarrow> ids_fresh (selection_effect s)"
proof -
  assume a: "ids_fresh s"
  then have b: "ids_fresh (s\<lparr>loadingLogs := True, selectedLocation := None\<rparr>)"
    by (simp add: ids_fresh_def)
  from a have c: "ids_fresh (s\<lparr>locationLogs := [], selectedLocation := None\<rparr>)"
    by (simp add: ids_fresh_def)
  show ?thesis
    unfolding selection_effect_def loadLocationLogs_def
    using a b c by (auto split: option.splits intro: ids_fresh_issue)
qed

lemma ids_fresh_effects: "ids_fresh s \<Longrightarrow> ids_fresh (effects old s)"
  unfolding effects_def Let_def
  by (auto intro: ids_fresh_auth_effect ids_fresh_debounce_effect ids_fresh_selection_effect)

lemma ids_fresh_fire_timer: "ids_fresh s \<Longrightarrow> ids_fresh (fire_timer s)"
proof -
  assume a: "ids_fresh s"
  then have b: "ids_fresh (s\<lparr>timer := None\<rparr>)" by (simp add: ids_fresh_def)
  show ?thesis
    unfolding fire_timer_def load_def
    using a b by (auto split: option.splits intro: ids_fresh_issue)
qed

lemma ids_fresh_step: "ids_fresh s \<Longrightarrow> ids_fresh (step toISO ev s)"
proof (cases ev)
  case (Advance t)
  assume "ids_fresh s"
  then have "ids_fresh (s\<lparr>clock := max (clock s) t\<rparr>)" by (simp add: ids_fresh_def)
  then show ?thesis using Advance by (simp add: ids_fresh_fire_timer)
next
  case Logout
  assume "ids_fresh s"
  then have "ids_fresh (logout s)" by (simp add: ids_fresh_def logout_def)
  then show ?thesis using Logout by (simp add: ids_fresh_effects)
next
  case (SummaryResponse i r)
  assume "ids_fresh s"
  then show ?thesis using SummaryResponse
    by (auto split: option.splits pending.splits
        intro: ids_fresh_load_after_summary ids_fresh_settle)
next
  case (DevicesResponse i r)
  assume "ids_fresh s"
  then show ?thesis using DevicesResponse
    by (auto split: option.splits pending.splits
        intro: ids_fresh_load_after_devices ids_fresh_settle)
next
  case (LogsResponse i r)
  assume "ids_fresh s"
  then show ?thesis using LogsResponse
    by (auto split: option.splits pending.splits intro: ids_fresh_resumed ids_fresh_settle)
next
  case (SetQ v)
  assume "ids_fresh s"
  then have "ids_fresh (s\<lparr>q := v\<rparr>)" by (simp add: ids_fresh_def)
  then show ?thesis using SetQ by (simp add: ids_fresh_effects)
next
  case (SetSince v)
  assume "ids_fresh s"
  then have "ids_fresh (s\<lparr>since := v\<rparr>)" by (simp add: ids_fresh_def)
  then show ?thesis using SetSince by (simp add: ids_fresh_effects)
next
  case (SetUntil v)
  assume "ids_fresh s"
  then have "ids_fresh (s\<lparr>until := v\<rparr>)" by (simp add: ids_fresh_def)
  then show ?thesis using SetUntil by (simp add: ids_fresh_effects)
next
  case (ClickDevice d)
  assume "ids_fresh s"
  then have "ids_fresh (s\<lparr>selected := Some d\<rparr>)" by (simp add: ids_fresh_def)
  then show ?thesis using ClickDevice by (simp add: ids_fresh_effects)
next
  case (ClickLog l)
  assume "ids_fresh s"
  then have "ids_fresh (s\<lparr>selectedLocation := Some l\<rparr>)" by (simp add: ids_fresh_def)
  then show ?thesis using ClickLog by (simp add: ids_fresh_effects)
qed

lemma ids_fresh_run: "ids_fresh s \<Longrightarrow> ids_fresh (run toISO evs s)"
  by (induction evs arbitrary: s) (simp_all add: ids_fresh_step)

lemma ids_fresh_mount: "ids_fresh (mount ls t0)"
proof -
  have "ids_fresh (init ls t0)" by (simp add: ids_fresh_def init_def)
  then show ?thesis
    unfolding mount_def
    by (intro ids_fresh_selection_effect ids_fresh_debounce_effect ids_fresh_auth_effect)
qed

section \<open>Selecting a device\<close>

lemmas example_defs = mount_def init_def a_store_def a_device_def a_log_def a_summary_def
  getToken_def bearer_def iso_utc_def


text \<open>
  C4: when a location-log fetch in flight succeeds with a non-empty list, the list is stored
  as it came and its first entry becomes the selected location, and the loading flag is
  cleared; with non-zero coordinates the marker stands at that entry.
\<close>

theorem C4_first_log_selected:
  assumes "map_of (inflight s) i = Some AwaitLogs"
  shows "locationLogs (step toISO (LogsResponse i (Inr (l1 # rest))) s) = l1 # rest
    \<and> selectedLocation (step toISO (LogsResponse i (Inr (l1 # rest))) s) = Some l1
    \<and> loadingLogs (step toISO (LogsResponse i (Inr (l1 # rest))) s) = False
    \<and> (authed s \<and> selected s = Some d \<and> lat l1 \<noteq> 0 \<and> lng l1 \<noteq> 0 \<longrightarrow>
         map_option (\<lambda>p. marker (MapPreview p))
           (map_props_of (step toISO (LogsResponse i (Inr (l1 # rest))) s)) = Some (lat l1, lng l1))"
  using assms
  by (simp add: loadLocationLogs_resumed_def settle_def map_props_of_def or_num_def
      truthy_num_def MapPreview_def authed_def)

theorem C4_first_log_selected_witness:
  "selectedLocation
     (run iso_utc
        [SummaryResponse 0 (Inr a_summary),
         DevicesResponse 1 (Inr [a_device ''A'' None]),
         ClickDevice (a_device ''A'' None),
         LogsResponse 2 (Inr [a_log ''L1'' ''A'' 12 77 ''2024-01-02T00:00:00Z'',
                              a_log ''L2'' ''A'' 13 78 ''2024-01-01T00:00:00Z''])]
        (mount a_store 0))
   = Some (a_log ''L1'' ''A'' 12 77 ''2024-01-02T00:00:00Z'')
   \<and> locationLogs
     (run iso_utc
        [SummaryResponse 0 (Inr a_summary),
         DevicesResponse 1 (Inr [a_device ''A'' None]),
         ClickDevice (a_device ''A'' None),
         LogsResponse 2 (Inr [a_log ''L1'' ''A'' 12 77 ''2024-01-02T00:00:00Z'',
                              a_log ''L2'' ''A'' 13 78 ''2024-01-01T00:00:00Z''])]
        (mount a_store 0))
   = [a_log ''L1'' ''A'' 12 77 ''2024-01-02T00:00:00Z'',
      a_log ''L2'' ''A'' 13 78 ''2024-01-01T00:00:00Z'']"
proof -
  let ?s = "run iso_utc
        [SummaryResponse 0 (Inr a_summary),
         DevicesResponse 1 (Inr [a_device ''A'' None]),
         ClickDevice (a_device ''A'' None)]
        (mount a_store 0)"
  let ?l1 = "a_log ''L1'' ''A'' 12 77 ''2024-01-02T00:00:00Z''"
  let ?l2 = "a_log ''L2'' ''A'' 13 78 ''2024-01-01T00:00:00Z''"
  have p: "map_of (inflight ?s) 2 = Some AwaitLogs"
    by (simp add: handler_defs example_defs)
  note t = C4_first_log_selected [OF p, of iso_utc ?l1 "[?l2]"]
  from t have a: "selectedLocation (step iso_utc (LogsResponse 2 (Inr [?l1, ?l2])) ?s) = Some ?l1"
    by blast
  from t have b: "locationLogs (step iso_utc (LogsResponse 2 (Inr [?l1, ?l2])) ?s) = [?l1, ?l2]"
    by blast
  from a b show ?thesis by simp
qed

text \<open>A click on a device whose id is non-empty and differs from the selected one.\<close>

lemma click_new_device:
  assumes "deviceId d \<noteq> []" and "dep_deviceId s \<noteq> Some (deviceId d)"
  shows "step toISO (ClickDevice d) s =
     s\<lparr>selected := Some d, loadingLogs := True, selectedLocation := None,
       issued := issued s @ [(GetLocationLogs (deviceId d) [], bearer (localStorage s))],
       inflight := inflight s @ [(next_id s, AwaitLogs)],
       next_id := Suc (next_id s)\<rparr>"
proof (cases "selected s")
  case None
  with assms show ?thesis by (simp add: handler_defs Let_def)
next
  case (Some d0)
  with assms show ?thesis by (simp add: handler_defs Let_def)
qed


text \<open>
  C1, as stated, fails: \<open>loadLocationLogs\<close> clears the selected location before the fetch
  but leaves the log list as it is. After device A's log has loaded, a click on device B
  issues the fetch for B while the list still holds A's entry (the panel shows the loading
  line under the heading count 1). And a fetch is never cancelled: when B is clicked while
  A's fetch is in flight and A's answer arrives last, B is shown with A's entry in the list
  and A's position on the map.
\<close>

theorem C1_stale_logs_counterexample:
  "locationLogs
     (run iso_utc
        [SummaryResponse 0 (Inr a_summary),
         DevicesResponse 1 (Inr [a_device ''A'' None, a_device ''B'' None]),
         ClickDevice (a_device ''A'' None),
         LogsResponse 2 (Inr [a_log ''LA'' ''A'' 12 77 ''2024-01-02T00:00:00Z'']),
         ClickDevice (a_device ''B'' None)]
        (mount a_store 0))
    = [a_log ''LA'' ''A'' 12 77 ''2024-01-02T00:00:00Z'']
   \<and> issued
     (run iso_utc
        [SummaryResponse 0 (Inr a_summary),
         DevicesResponse 1 (Inr [a_device ''A'' None, a_device ''B'' None]),
         ClickDevice (a_device ''A'' None),
         LogsResponse 2 (Inr [a_log ''LA'' ''A'' 12 77 ''2024-01-02T00:00:00Z'']),
         ClickDevice (a_device ''B'' None)]
        (mount a_store 0))
    = [(Summary, Some ''tok''), (ListDevices [(''q'', [])], Some ''tok''),
       (GetLocationLogs ''A'' [], Some ''tok''), (GetLocationLogs ''B'' [], Some ''tok'')]
   \<and> log_panel
     (run iso_utc
        [SummaryResponse 0 (Inr a_summary),
         DevicesResponse 1 (Inr [a_device ''A'' None, a_device ''B'' None]),
         ClickDevice (a_device ''A'' None),
         LogsResponse 2 (Inr [a_log ''LA'' ''A'' 12 77 ''2024-01-02T00:00:00Z'']),
         ClickDevice (a_device ''B'' None)]
        (mount a_store 0))
    = Some (1, LoadingLine)
   \<and> map_option deviceId (selected
     (run iso_utc
        [SummaryResponse 0 (Inr a_summary),
         DevicesResponse 1 (Inr [a_device ''A'' None, a_device ''B'' None]),
         ClickDevice (a_device ''A'' None),
         ClickDevice (a_device ''B'' None),
         LogsResponse 3 (Inr []),
         LogsResponse 2 (Inr [a_log ''LA'' ''A'' 12 77 ''2024-01-02T00:00:00Z''])]
        (mount a_store 0))) = Some ''B''
   \<and> log_panel
     (run iso_utc
        [SummaryResponse 0 (Inr a_summary),
         DevicesResponse 1 (Inr [a_device ''A'' None, a_device ''B'' None]),
         ClickDevice (a_device ''A'' None),
         ClickDevice (a_device ''B'' None),
         LogsResponse 3 (Inr []),
         LogsResponse 2 (Inr [a_log ''LA'' ''A'' 12 77 ''2024-01-02T00:00:00Z''])]
        (mount a_store 0))
    = Some (1, Entries [a_log ''LA'' ''A'' 12 77 ''2024-01-02T00:00:00Z''])
   \<and> map_option (\<lambda>p. marker (MapPreview p)) (map_props_of
     (run iso_utc
        [SummaryResponse 0 (Inr a_summary),
         DevicesResponse 1 (Inr [a_device ''A'' None, a_device ''B'' None]),
         ClickDevice (a_device ''A'' None),
         ClickDevice (a_device ''B'' None),
         LogsResponse 3 (Inr []),
         LogsResponse 2 (Inr [a_log ''LA'' ''A'' 12 77 ''2024-01-02T00:00:00Z''])]
        (mount a_store 0))) = Some (12, 77)"
  by (simp add: handler_defs example_defs log_panel_def map_props_of_def or_num_def or_str_def
      truthy_num_def MapPreview_def)


text \<open>
  C1 (amended): in the logged-in view, a click on a device with a non-empty id other than
  the selected one makes it the selected device, and the effect that follows clears the
  selected location and raises the loading flag before it issues the fetch for the device's
  logs, the one call issued. The log list is not cleared: it keeps the entries it had until
  the fetch resolves, hidden behind the loading line, and the map shows the new device's
  \<open>lastLocation\<close>.
\<close>

theorem C1_selection_change:
  assumes "authed s" and "deviceId d \<noteq> []" and "dep_deviceId s \<noteq> Some (deviceId d)"
  shows "selected (step toISO (ClickDevice d) s) = Some d
    \<and> selectedLocation (step toISO (ClickDevice d) s) = None
    \<and> loadingLogs (step toISO (ClickDevice d) s) = True
    \<and> locationLogs (step toISO (ClickDevice d) s) = locationLogs s
    \<and> issued (step toISO (ClickDevice d) s) =
        issued s @ [(GetLocationLogs (deviceId d) [], bearer (localStorage s))]
    \<and> inflight (step toISO (ClickDevice d) s) = inflight s @ [(next_id s, AwaitLogs)]
    \<and> map_option snd (log_panel (step toISO (ClickDevice d) s)) = Some LoadingLine
    \<and> map_props_of (step toISO (ClickDevice d) s) = Some
        \<lparr>p_lat = map_option ll_lat (lastLocation d),
         p_lng = map_option ll_lng (lastLocation d),
         p_timestamp = Option.bind (lastLocation d) ll_timestamp,
         p_address = Option.bind (lastLocation d) ll_address\<rparr>"
  unfolding click_new_device [OF assms(2,3)]
  using assms(1)
  by (simp add: log_panel_def map_props_of_def or_num_def or_str_def truthy_num_def truthy_str_def
          authed_def)


theorem C1_selection_change_witness:
  "selectedLocation
     (run iso_utc
        [SummaryResponse 0 (Inr a_summary),
         DevicesResponse 1 (Inr [a_device ''A'' None, a_device ''B'' None]),
         ClickDevice (a_device ''A'' None),
         LogsResponse 2 (Inr [a_log ''LA'' ''A'' 12 77 ''2024-01-02T00:00:00Z'']),
         ClickDevice (a_device ''B'' None)]
        (mount a_store 0)) = None
   \<and> loadingLogs
     (run iso_utc
        [SummaryResponse 0 (Inr a_summary),
         DevicesResponse 1 (Inr [a_device ''A'' None, a_device ''B'' None]),
         ClickDevice (a_device ''A'' None),
         LogsResponse 2 (Inr [a_log ''LA'' ''A'' 12 77 ''2024-01-02T00:00:00Z'']),
         ClickDevice (a_device ''B'' None)]
        (mount a_store 0)) = True"
proof -
  let ?s = "run iso_utc
        [SummaryResponse 0 (Inr a_summary),
         DevicesResponse 1 (Inr [a_device ''A'' None, a_device ''B'' None]),
         ClickDevice (a_device ''A'' None),
         LogsResponse 2 (Inr [a_log ''LA'' ''A'' 12 77 ''2024-01-02T00:00:00Z''])]
        (mount a_store 0)"
  have p1: "deviceId (a_device ''B'' None) \<noteq> []" by (simp add: a_device_def)
  have p2: "dep_deviceId ?s \<noteq> Some (deviceId (a_device ''B'' None))"
    by (simp add: handler_defs example_defs)
  have p0: "authed ?s" by (simp add: handler_defs example_defs)
  note t = C1_selection_change [OF p0 p1 p2, of iso_utc]
  from t have a: "selectedLocation (step iso_utc (ClickDevice (a_device ''B'' None)) ?s) = None"
    by blast
  from t have b: "loadingLogs (step iso_utc (ClickDevice (a_device ''B'' None)) ?s) = True"
    by blast
  from a b show ?thesis by simp
qed




section \<open>The debounced search\<close>

lemma run_append: "run toISO (xs @ ys) s = run toISO ys (run toISO xs s)"
  by (induction xs arbitrary: s) simp_all

lemma edit_step:
  assumes "authed s" and "clock s \<le> t" and "timer_after t s"
    and "edit ev (inputs_of s) \<noteq> inputs_of s"
  shows "step toISO ev (step toISO (Advance t) s) =
     s\<lparr>q := fst (edit ev (inputs_of s)),
       since := fst (snd (edit ev (inputs_of s))),
       until := snd (snd (edit ev (inputs_of s))),
       clock := t,
       timer := Some (t + 350, edit ev (inputs_of s))\<rparr>"
proof -
  have adv: "step toISO (Advance t) s = s\<lparr>clock := t\<rparr>"
    using assms(2,3)
    by (auto simp: fire_timer_def timer_after_def max_def split: option.splits)
  have au: "authed (s\<lparr>clock := t\<rparr>)" using assms(1) by (simp add: authed_def)
  show ?thesis
    unfolding adv using assms(1,4)
    by (cases ev)
      (simp_all add: effects_def debounce_effect_def authed_def inputs_of_def dep_deviceId_def
        Let_def)
qed

lemma burst_run:
  assumes "authed s" and "timer s = Some (clock s + 350, inputs_of s)"
    and "burst (clock s) (inputs_of s) es"
  shows "run toISO (timed es) s =
     s\<lparr>q := fst (final_inputs (inputs_of s) es),
       since := fst (snd (final_inputs (inputs_of s) es)),
       until := snd (snd (final_inputs (inputs_of s) es)),
       clock := last_time (clock s) es,
       timer := Some (last_time (clock s) es + 350, final_inputs (inputs_of s) es)\<rparr>"
  using assms
proof (induction es arbitrary: s)
  case Nil
  then show ?case by (simp add: inputs_of_def)
next
  case (Cons te es)
  obtain t ev where te: "te = (t, ev)" by (cases te)
  let ?i = "edit ev (inputs_of s)"
  let ?s1 = "s\<lparr>q := fst ?i, since := fst (snd ?i), until := snd (snd ?i),
       clock := t, timer := Some (t + 350, ?i)\<rparr>"
  from Cons.prems(3) te have b: "clock s \<le> t" "t < clock s + 350" "?i \<noteq> inputs_of s"
    "burst t ?i es" by simp_all
  have ta: "timer_after t s" using Cons.prems(2) b(2) by (simp add: timer_after_def)
  have st: "step toISO ev (step toISO (Advance t) s) = ?s1"
    by (rule edit_step [OF Cons.prems(1) b(1) ta b(3)])
  have i1: "inputs_of ?s1 = ?i" by (simp add: inputs_of_def)
  have a1: "authed ?s1" using Cons.prems(1) by (simp add: authed_def)
  have t1: "timer ?s1 = Some (clock ?s1 + 350, inputs_of ?s1)" by (simp add: i1)
  have b1: "burst (clock ?s1) (inputs_of ?s1) es" using b(4) by (simp add: i1)
  have "run toISO (timed (te # es)) s = run toISO (timed es) ?s1"
    by (simp only: te timed.simps run.simps st)
  also have "\<dots> = ?s1\<lparr>q := fst (final_inputs (inputs_of ?s1) es),
       since := fst (snd (final_inputs (inputs_of ?s1) es)),
       until := snd (snd (final_inputs (inputs_of ?s1) es)),
       clock := last_time (clock ?s1) es,
       timer := Some (last_time (clock ?s1) es + 350, final_inputs (inputs_of ?s1) es)\<rparr>"
    by (rule Cons.IH [OF a1 t1 b1])
  also have "\<dots> = s\<lparr>q := fst (final_inputs (inputs_of s) (te # es)),
       since := fst (snd (final_inputs (inputs_of s) (te # es))),
       until := snd (snd (final_inputs (inputs_of s) (te # es))),
       clock := last_time (clock s) (te # es),
       timer := Some (last_time (clock s) (te # es) + 350, final_inputs (inputs_of s) (te # es))\<rparr>"
    unfolding i1 by (simp add: te)
  finally show ?case .
qed

lemma burst_then_quiet:
  assumes "authed s" and "ids_fresh s" and "clock s \<le> t1" and "timer_after t1 s"
    and "edit e1 (inputs_of s) \<noteq> inputs_of s"
    and "burst t1 (edit e1 (inputs_of s)) es"
    and "last_time t1 es + 350 \<le> T"
  shows "run toISO (timed ((t1, e1) # es) @ [Advance T]) s =
     s\<lparr>q := fst (final_inputs (inputs_of s) ((t1, e1) # es)),
       since := fst (snd (final_inputs (inputs_of s) ((t1, e1) # es))),
       until := snd (snd (final_inputs (inputs_of s) ((t1, e1) # es))),
       clock := T,
       timer := None,
       issued := issued s @ [(Summary, bearer (localStorage s))],
       inflight := inflight s @
         [(next_id s, AwaitSummary DebounceTimer (final_inputs (inputs_of s) ((t1, e1) # es)))],
       next_id := Suc (next_id s)\<rparr>"
proof -
  let ?i = "edit e1 (inputs_of s)"
  let ?s1 = "s\<lparr>q := fst ?i, since := fst (snd ?i), until := snd (snd ?i),
       clock := t1, timer := Some (t1 + 350, ?i)\<rparr>"
  let ?f = "final_inputs ?i es"
  let ?s2 = "?s1\<lparr>q := fst ?f, since := fst (snd ?f), until := snd (snd ?f),
       clock := last_time t1 es, timer := Some (last_time t1 es + 350, ?f)\<rparr>"
  have st: "step toISO e1 (step toISO (Advance t1) s) = ?s1"
    by (rule edit_step [OF assms(1,3,4,5)])
  have i1: "inputs_of ?s1 = ?i" by (simp add: inputs_of_def)
  have a1: "authed ?s1" using assms(1) by (simp add: authed_def)
  have t1: "timer ?s1 = Some (clock ?s1 + 350, inputs_of ?s1)" by (simp add: i1)
  have b1: "burst (clock ?s1) (inputs_of ?s1) es" using assms(6) by (simp add: i1)
  have r1: "run toISO (timed es) ?s1 = ?s2"
    using burst_run [OF a1 t1 b1, of toISO] unfolding i1 by simp
  have "run toISO (timed ((t1, e1) # es) @ [Advance T]) s = step toISO (Advance T) ?s2"
    by (simp only: run_append timed.simps run.simps st r1)
  also have "\<dots> = s\<lparr>q := fst ?f, since := fst (snd ?f), until := snd (snd ?f),
       clock := T, timer := None,
       issued := issued s @ [(Summary, bearer (localStorage s))],
       inflight := inflight s @ [(next_id s, AwaitSummary DebounceTimer ?f)],
       next_id := Suc (next_id s)\<rparr>"
    using assms(7) by (simp add: fire_timer_def load_def issue_def max_def)
  finally show ?thesis by simp
qed


text \<open>
  C3, as stated, fails: the timer's callback is \<open>load\<close>, which awaits the summary call
  before it calls \<open>listDevices\<close>. Here the server answers every summary call with a 500;
  the inputs \<open>a\<close>, \<open>ab\<close>, \<open>abc\<close> come 50 ms apart, the timer fires 350 ms after the
  last, and when its summary call has failed nothing is in flight, no timer is set, and the
  calls issued are three summary calls (two from the first render) and no \<open>listDevices\<close>.
\<close>

theorem C3_summary_fails_counterexample:
  "issued (run iso_utc
      [SummaryResponse 0 (Inl (JsError ''Error'' ''HTTP 500'')),
       Advance 350,
       SummaryResponse 1 (Inl (JsError ''Error'' ''HTTP 500'')),
       Advance 1000, SetQ ''a'',
       Advance 1050, SetQ ''ab'',
       Advance 1100, SetQ ''abc'',
       Advance 1450,
       SummaryResponse 2 (Inl (JsError ''Error'' ''HTTP 500''))]
      (mount a_store 0))
    = [(Summary, Some ''tok''), (Summary, Some ''tok''), (Summary, Some ''tok'')]
   \<and> inflight (run iso_utc
      [SummaryResponse 0 (Inl (JsError ''Error'' ''HTTP 500'')),
       Advance 350,
       SummaryResponse 1 (Inl (JsError ''Error'' ''HTTP 500'')),
       Advance 1000, SetQ ''a'',
       Advance 1050, SetQ ''ab'',
       Advance 1100, SetQ ''abc'',
       Advance 1450,
       SummaryResponse 2 (Inl (JsError ''Error'' ''HTTP 500''))]
      (mount a_store 0)) = []
   \<and> timer (run iso_utc
      [SummaryResponse 0 (Inl (JsError ''Error'' ''HTTP 500'')),
       Advance 350,
       SummaryResponse 1 (Inl (JsError ''Error'' ''HTTP 500'')),
       Advance 1000, SetQ ''a'',
       Advance 1050, SetQ ''ab'',
       Advance 1100, SetQ ''abc'',
       Advance 1450,
       SummaryResponse 2 (Inl (JsError ''Error'' ''HTTP 500''))]
      (mount a_store 0)) = None"
  by (simp add: handler_defs example_defs)


text \<open>
  C3 (amended): the user is logged in and no timer is due before the first edit. A burst of
  edits, each changing an input and each less than 350 ms after the one before, followed by
  350 ms of quiet, starts \<open>load\<close> exactly once: the one call issued in all that time is
  its summary call, its closure holds the inputs as the last edit left them, and no timer
  is left. When that summary call is answered, \<open>load\<close> issues the one
  \<open>listDevices\<close> call for those last inputs if the summary succeeded and the date
  conversion did not throw, and no call otherwise.
\<close>

theorem C3_debounce_one_load:
  assumes "authed s" and "ids_fresh s" and "clock s \<le> t1" and "timer_after t1 s"
    and "edit e1 (inputs_of s) \<noteq> inputs_of s"
    and "burst t1 (edit e1 (inputs_of s)) es"
    and "last_time t1 es + 350 \<le> T"
  shows "issued (run toISO (timed ((t1, e1) # es) @ [Advance T]) s) =
        issued s @ [(Summary, bearer (localStorage s))]
    \<and> inflight (run toISO (timed ((t1, e1) # es) @ [Advance T]) s) =
        inflight s @
          [(next_id s, AwaitSummary DebounceTimer (final_inputs (inputs_of s) ((t1, e1) # es)))]
    \<and> timer (run toISO (timed ((t1, e1) # es) @ [Advance T]) s) = None
    \<and> inputs_of (run toISO (timed ((t1, e1) # es) @ [Advance T]) s) =
        final_inputs (inputs_of s) ((t1, e1) # es)
    \<and> issued (run toISO (timed ((t1, e1) # es) @ [Advance T, SummaryResponse (next_id s) r]) s) =
        issued s @ (Summary, bearer (localStorage s)) #
          map (\<lambda>c. (c, bearer (localStorage s)))
            (calls_after_summary toISO (final_inputs (inputs_of s) ((t1, e1) # es)) r)"
proof -
  let ?f = "final_inputs (inputs_of s) ((t1, e1) # es)"
  let ?s3 = "s\<lparr>q := fst ?f, since := fst (snd ?f), until := snd (snd ?f),
       clock := T, timer := None,
       issued := issued s @ [(Summary, bearer (localStorage s))],
       inflight := inflight s @ [(next_id s, AwaitSummary DebounceTimer ?f)],
       next_id := Suc (next_id s)\<rparr>"
  have q: "run toISO (timed ((t1, e1) # es) @ [Advance T]) s = ?s3"
    by (rule burst_then_quiet [OF assms])
  have m: "map_of (inflight ?s3) (next_id s) = Some (AwaitSummary DebounceTimer ?f)"
    using assms(2) unfolding ids_fresh_def by (simp add: map_of_fresh del: map_of_append)
  have split: "timed ((t1, e1) # es) @ [Advance T, SummaryResponse (next_id s) r] =
      (timed ((t1, e1) # es) @ [Advance T]) @ [SummaryResponse (next_id s) r]"
    by simp
  have r2: "run toISO (timed ((t1, e1) # es) @ [Advance T, SummaryResponse (next_id s) r]) s =
      load_after_summary toISO DebounceTimer ?f r (settle (next_id s) ?s3)"
  proof -
    have "run toISO ((timed ((t1, e1) # es) @ [Advance T]) @ [SummaryResponse (next_id s) r]) s =
        run toISO [SummaryResponse (next_id s) r] (run toISO (timed ((t1, e1) # es) @ [Advance T]) s)"
      by (rule run_append)
    also have "\<dots> = run toISO [SummaryResponse (next_id s) r] ?s3"
      by (simp only: q)
    also have "\<dots> = load_after_summary toISO DebounceTimer ?f r (settle (next_id s) ?s3)"
      by (simp only: run.simps step.simps m option.case pending.case)
    finally show ?thesis unfolding split .
  qed
  have i5: "issued (load_after_summary toISO DebounceTimer ?f r (settle (next_id s) ?s3)) =
      issued s @ (Summary, bearer (localStorage s)) #
          map (\<lambda>c. (c, bearer (localStorage s))) (calls_after_summary toISO ?f r)"
    by (simp add: load_after_summary_def calls_after_summary_def load_rejected_def settle_def
        issue_def Let_def split: sum.splits prod.splits)
  show ?thesis
    unfolding r2 i5 unfolding q by (simp add: inputs_of_def)
qed

theorem C3_debounce_one_load_witness:
  "issued (run iso_utc
      (timed [(1000, SetQ ''a''), (1050, SetQ ''ab''), (1100, SetQ ''abc'')]
        @ [Advance 1450, SummaryResponse 2 (Inr a_summary)])
      (run iso_utc [Advance 350] (mount a_store 0)))
   = [(Summary, Some ''tok''), (Summary, Some ''tok''), (Summary, Some ''tok''),
      (ListDevices [(''q'', ''abc'')], Some ''tok'')]"
proof -
  let ?s = "run iso_utc [Advance 350] (mount a_store 0)"
  have s: "?s = (init a_store 0)\<lparr>clock := 350, timer := None,
       issued := [(Summary, Some ''tok''), (Summary, Some ''tok'')],
       inflight := [(0, AwaitSummary AuthEffect ([], [], [])),
                    (1, AwaitSummary DebounceTimer ([], [], []))],
       next_id := 2\<rparr>"
    by (simp add: handler_defs example_defs)
  have p1: "authed ?s" unfolding s by (simp add: authed_def truthy_str_def example_defs)
  have p2: "ids_fresh ?s" by (intro ids_fresh_run ids_fresh_mount)
  have p3: "clock ?s \<le> 1000" unfolding s by simp
  have p4: "timer_after 1000 ?s" unfolding s by (simp add: timer_after_def)
  have i: "inputs_of ?s = ([], [], [])" unfolding s by (simp add: inputs_of_def init_def)
  have p5: "edit (SetQ ''a'') (inputs_of ?s) \<noteq> inputs_of ?s" unfolding i by simp
  have p6: "burst 1000 (edit (SetQ ''a'') (inputs_of ?s)) [(1050, SetQ ''ab''), (1100, SetQ ''abc'')]"
    unfolding i by simp
  have p7: "last_time 1000 [(1050, SetQ ''ab''), (1100, SetQ ''abc'')] + 350 \<le> (1450 :: nat)"
    by simp
  have n: "next_id ?s = 2" unfolding s by simp
  have b: "bearer (localStorage ?s) = Some ''tok''" unfolding s by (simp add: example_defs truthy_str_def)
  have iss: "issued ?s = [(Summary, Some ''tok''), (Summary, Some ''tok'')]" unfolding s by simp
  note t = C3_debounce_one_load [OF p1 p2 p3 p4 p5 p6 p7, of iso_utc "Inr a_summary"]
  note t5 = t [THEN conjunct2, THEN conjunct2, THEN conjunct2, THEN conjunct2]
  have c: "calls_after_summary iso_utc
      (final_inputs ([], [], []) [(1000, SetQ ''a''), (1050, SetQ ''ab''), (1100, SetQ ''abc'')])
      (Inr a_summary) = [ListDevices [(''q'', ''abc'')]]"
    by (simp add: calls_after_summary_def iso_opt_def api_listDevices_def sp_set_if_def)
  show ?thesis
    using t5 unfolding n b iss i c by (simp only: append.simps list.map)
qed

section \<open>Answers of the device-list call\<close>

text \<open>
  C8, as stated, fails: \<open>load\<close> writes the device list whenever its call is answered and
  nothing tells an old answer from a new one. The call for the empty query (from the first
  render) is in flight when the call for \<open>a\<close> is issued; the answer for \<open>a\<close> arrives
  first and the list is device A; then the older answer arrives and the list is A and B,
  under the query \<open>a\<close>.
\<close>

theorem C8_older_response_overwrites_counterexample:
  "devices (run iso_utc
      [SummaryResponse 0 (Inr a_summary),
       Advance 100, SetQ ''a'',
       Advance 450,
       SummaryResponse 2 (Inr a_summary),
       DevicesResponse 3 (Inr [a_device ''A'' None])]
      (mount a_store 0))
    = [a_device ''A'' None]
   \<and> devices (run iso_utc
      [SummaryResponse 0 (Inr a_summary),
       Advance 100, SetQ ''a'',
       Advance 450,
       SummaryResponse 2 (Inr a_summary),
       DevicesResponse 3 (Inr [a_device ''A'' None]),
       DevicesResponse 1 (Inr [a_device ''A'' None, a_device ''B'' None])]
      (mount a_store 0))
    = [a_device ''A'' None, a_device ''B'' None]
   \<and> issued (run iso_utc
      [SummaryResponse 0 (Inr a_summary),
       Advance 100, SetQ ''a'',
       Advance 450,
       SummaryResponse 2 (Inr a_summary),
       DevicesResponse 3 (Inr [a_device ''A'' None]),
       DevicesResponse 1 (Inr [a_device ''A'' None, a_device ''B'' None])]
      (mount a_store 0))
    = [(Summary, Some ''tok''), (ListDevices [(''q'', [])], Some ''tok''),
       (Summary, Some ''tok''), (ListDevices [(''q'', ''a'')], Some ''tok'')]"
  by (simp add: handler_defs example_defs)


text \<open>
  C8 (amended): the answer of a device-list call in flight, when it is a success, becomes
  the device list, whatever calls were issued after it: the last answer to arrive wins.
\<close>

theorem C8_last_response_wins:
  assumes "map_of (inflight s) i = Some (AwaitDevices who)"
  shows "devices (step toISO (DevicesResponse i (Inr ds)) s) = ds"
  using assms by (simp add: load_after_devices_def settle_def)

theorem C8_last_response_wins_witness:
  "devices (run iso_utc
      [SummaryResponse 0 (Inr a_summary),
       DevicesResponse 1 (Inr [a_device ''A'' None, a_device ''B'' None])]
      (mount a_store 0))
    = [a_device ''A'' None, a_device ''B'' None]"
proof -
  let ?s = "run iso_utc [SummaryResponse 0 (Inr a_summary)] (mount a_store 0)"
  have p: "map_of (inflight ?s) 1 = Some (AwaitDevices AuthEffect)"
    by (simp add: handler_defs example_defs)
  from C8_last_response_wins [OF p, of iso_utc "[a_device ''A'' None, a_device ''B'' None]"]
  show ?thesis by simp
qed

end
